theory Spec2Isabelle
  imports Main "HOL-Library.Sublist" "HOL-Library.Multiset"
begin

section \<open>Strings, errors and the library functions the operations call\<close>

text \<open>
  A Go \<open>string\<close> is a sequence of bytes: it is modelled as \<open>string\<close> (a list of 8-bit
  \<open>char\<close>). Every \<open>error\<close> value that \<open>ops.go\<close> creates or passes on is a constructor of
  \<open>error\<close>; \<open>CallError\<close> stands for any error that \<open>Session.Call\<close> returns.
\<close>

datatype error =
    EmptyDatastore            \<comment> \<open>\<open>datastores cannot be empty\<close>\<close>
  | InvalidStringElement error  \<comment> \<open>\<open>invalid string element: %w\<close>\<close>
  | XPathMustStartWithSlash   \<comment> \<open>\<open>invalid XPath format: must start with '/'\<close>\<close>
  | XPathInvalidFormat        \<comment> \<open>\<open>invalid XPath format\<close>\<close>
  | PersistIDWithConfirmed    \<comment> \<open>\<open>PersistID cannot be used with Confirmed/ConfirmedTimeout or Persist options\<close>\<close>
  | MissingStartName          \<comment> \<open>\<open>xml: EncodeElement of StartElement with missing name\<close>\<close>
  | XMLSyntaxError            \<comment> \<open>what \<open>xml.Decoder\<close> reports for input that is not well formed\<close>
  | CallError string

definition dquote :: char where "dquote = CHR 0x22"
definition squote :: char where "squote = CHR 0x27"
definition newline :: char where "newline = CHR 0x0A"

subsection \<open>\<open>html.EscapeString\<close>\<close>

text \<open>Go's \<open>html.EscapeString\<close> replaces the five characters \<open><\<close>, \<open>>\<close>, \<open>&\<close>, \<open>'\<close> and \<open>"\<close>.\<close>

definition html_escape_char :: "char \<Rightarrow> string" where
  "html_escape_char c =
     (if c = CHR ''&'' then ''&amp;''
      else if c = squote then ''&#39;''
      else if c = CHR ''<'' then ''&lt;''
      else if c = CHR ''>'' then ''&gt;''
      else if c = dquote then ''&#34;''
      else [c])"

definition html_EscapeString :: "string \<Rightarrow> string" where
  "html_EscapeString s = concat (map html_escape_char s)"

section \<open>The regular expression of \<open>parseXPathToXML\<close>\<close>

text \<open>
  The pattern is \<^verbatim>\<open>/([\w-]+)(?:\[(.+?)=['"](.+?)['"]\])?\<close>. Go's \<open>regexp\<close> package returns
  the match that a backtracking search finds first (leftmost, and among the matches that
  begin there the one preferred by the operators: a greedy operator tries the longer
  alternative first, a lazy one the shorter). The matcher below is that search, written
  with a continuation for the rest of the pattern; the constructors are the operators
  the pattern uses. \<open>\w\<close> is the ASCII class \<open>[0-9A-Za-z_]\<close> and \<open>.\<close> is any character
  but the newline. The pattern's literal characters are ASCII, so matching bytes and
  matching UTF-8 runes give the same matches.
\<close>

datatype regex =
    Lit char                        \<comment> \<open>one literal character\<close>
  | Class "char \<Rightarrow> bool"             \<comment> \<open>one character of a class\<close>
  | Seq regex regex                 \<comment> \<open>concatenation\<close>
  | Opt regex                       \<comment> \<open>\<open>r?\<close>, greedy\<close>
  | PlusGreedy "char \<Rightarrow> bool"        \<comment> \<open>\<open>[c]+\<close>\<close>
  | PlusLazy "char \<Rightarrow> bool"          \<comment> \<open>\<open>[c]+?\<close>\<close>
  | Group nat regex                 \<comment> \<open>capturing group number n\<close>

type_synonym captures = "nat \<rightharpoonup> string"

fun starGreedy :: "(char \<Rightarrow> bool) \<Rightarrow> string \<Rightarrow> (string \<Rightarrow> 'a option) \<Rightarrow> 'a option" where
  "starGreedy p [] k = k []"
| "starGreedy p (c # cs) k =
     (if p c then (case starGreedy p cs k of Some r \<Rightarrow> Some r | None \<Rightarrow> k (c # cs))
      else k (c # cs))"

fun starLazy :: "(char \<Rightarrow> bool) \<Rightarrow> string \<Rightarrow> (string \<Rightarrow> 'a option) \<Rightarrow> 'a option" where
  "starLazy p [] k = k []"
| "starLazy p (c # cs) k =
     (case k (c # cs) of Some r \<Rightarrow> Some r
      | None \<Rightarrow> if p c then starLazy p cs k else None)"

fun rmatch :: "regex \<Rightarrow> string \<Rightarrow> captures \<Rightarrow> (string \<Rightarrow> captures \<Rightarrow> 'a option) \<Rightarrow> 'a option" where
  "rmatch (Lit c) s caps k =
     (case s of [] \<Rightarrow> None | x # xs \<Rightarrow> if x = c then k xs caps else None)"
| "rmatch (Class p) s caps k =
     (case s of [] \<Rightarrow> None | x # xs \<Rightarrow> if p x then k xs caps else None)"
| "rmatch (Seq r1 r2) s caps k = rmatch r1 s caps (\<lambda>s' caps'. rmatch r2 s' caps' k)"
| "rmatch (Opt r) s caps k =
     (case rmatch r s caps k of Some res \<Rightarrow> Some res | None \<Rightarrow> k s caps)"
| "rmatch (PlusGreedy p) s caps k =
     (case s of [] \<Rightarrow> None
      | x # xs \<Rightarrow> if p x then starGreedy p xs (\<lambda>s'. k s' caps) else None)"
| "rmatch (PlusLazy p) s caps k =
     (case s of [] \<Rightarrow> None
      | x # xs \<Rightarrow> if p x then starLazy p xs (\<lambda>s'. k s' caps) else None)"
| "rmatch (Group n r) s caps k =
     rmatch r s caps (\<lambda>s' caps'. k s' (caps'(n \<mapsto> take (length s - length s') s)))"

definition is_word_char :: "char \<Rightarrow> bool" where
  \<comment> \<open>\<open>\w\<close>: \<open>[0-9A-Za-z_]\<close>\<close>
  "is_word_char c =
     (let n = (of_char c :: nat)
      in (48 \<le> n \<and> n \<le> 57) \<or> (65 \<le> n \<and> n \<le> 90) \<or> n = 95 \<or> (97 \<le> n \<and> n \<le> 122))"

definition is_name_char :: "char \<Rightarrow> bool" where
  \<comment> \<open>\<open>[\w-]\<close>\<close>
  "is_name_char c = (is_word_char c \<or> c = CHR ''-'')"

definition is_dot :: "char \<Rightarrow> bool" where
  \<comment> \<open>\<open>.\<close> without the \<open>s\<close> flag\<close>
  "is_dot c = (c \<noteq> newline)"

definition is_quote :: "char \<Rightarrow> bool" where
  \<comment> \<open>\<open>['"]\<close>\<close>
  "is_quote c = (c = squote \<or> c = dquote)"

definition xpath_predicate_re :: regex where
  \<comment> \<open>\<^verbatim>\<open>\[(.+?)=['"](.+?)['"]\]\<close>\<close>
  "xpath_predicate_re =
     Seq (Lit (CHR ''[''))
    (Seq (Group 2 (PlusLazy is_dot))
    (Seq (Lit (CHR ''=''))
    (Seq (Class is_quote)
    (Seq (Group 3 (PlusLazy is_dot))
    (Seq (Class is_quote)
         (Lit (CHR '']'')))))))"

definition xpath_re :: regex where
  \<comment> \<open>\<^verbatim>\<open>/([\w-]+)(?:\[(.+?)=['"](.+?)['"]\])?\<close>\<close>
  "xpath_re =
     Seq (Lit (CHR ''/''))
    (Seq (Group 1 (PlusGreedy is_name_char))
         (Opt xpath_predicate_re))"

definition match_here :: "regex \<Rightarrow> string \<Rightarrow> (captures \<times> string) option" where
  \<comment> \<open>the preferred match that begins at the head of \<open>s\<close>: the groups and the rest of \<open>s\<close>\<close>
  "match_here re s = rmatch re s Map.empty (\<lambda>s' caps. Some (caps, s'))"

definition submatches :: "string \<Rightarrow> captures \<Rightarrow> string \<Rightarrow> string list" where
  \<comment> \<open>one element of \<open>FindAllStringSubmatch\<close>'s result: the whole match, then the three
      groups, a group that did not take part being the empty string\<close>
  "submatches s caps rest =
     take (length s - length rest) s #
     map (\<lambda>n. case caps n of None \<Rightarrow> [] | Some g \<Rightarrow> g) [1, 2, 3]"

text \<open>
  Whatever the continuation receives is a suffix of the input, so a match of the pattern,
  which begins with a literal \<open>/\<close>, always consumes at least one character. This is
  what makes the scan of \<open>FindAllStringSubmatch\<close> advance.
\<close>

lemma starGreedy_result:
  "starGreedy p s k = Some res \<Longrightarrow> \<exists>s'. k s' = Some res \<and> length s' \<le> length s"
  by (induction p s k rule: starGreedy.induct) (fastforce split: if_splits option.splits)+

lemma starLazy_result:
  "starLazy p s k = Some res \<Longrightarrow> \<exists>s'. k s' = Some res \<and> length s' \<le> length s"
  by (induction p s k rule: starLazy.induct) (fastforce split: if_splits option.splits)+

lemma rmatch_result:
  "rmatch r s caps k = Some res \<Longrightarrow> \<exists>s' caps'. k s' caps' = Some res \<and> length s' \<le> length s"
proof (induction r arbitrary: s caps k)
  case (Lit c)
  then show ?case by (fastforce split: list.splits if_splits)
next
  case (Class p)
  then show ?case by (fastforce split: list.splits if_splits)
next
  case (Seq r1 r2)
  from Seq.prems obtain s1 c1
    where a: "rmatch r2 s1 c1 k = Some res" and b: "length s1 \<le> length s"
    using Seq.IH(1)[of s caps "\<lambda>s' caps'. rmatch r2 s' caps' k"] by auto
  from Seq.IH(2)[OF a] b show ?case by (meson le_trans)
next
  case (Opt r)
  then show ?case by (fastforce split: option.splits)
next
  case (PlusGreedy p)
  then show ?case by (fastforce split: list.splits if_splits dest!: starGreedy_result)
next
  case (PlusLazy p)
  then show ?case by (fastforce split: list.splits if_splits dest!: starLazy_result)
next
  case (Group n r)
  from Group.IH[OF Group.prems[simplified]] show ?case by blast
qed

lemma match_here_xpath_shorter:
  assumes "match_here xpath_re s = Some (caps, rest)"
  shows "length rest < length s"
proof -
  from assms obtain xs where s: "s = CHR ''/'' # xs"
    and b: "rmatch (Seq (Group 1 (PlusGreedy is_name_char)) (Opt xpath_predicate_re)) xs
              Map.empty (\<lambda>s' caps. Some (caps, s')) = Some (caps, rest)"
    by (auto simp: match_here_def xpath_re_def split: list.splits if_splits)
  from rmatch_result[OF b] have "length rest \<le> length xs" by auto
  with s show ?thesis by simp
qed

text \<open>
  \<open>re.FindAllStringSubmatch(xpath, -1)\<close>: the successive non-overlapping matches, each
  search beginning where the previous match ended. Where no match begins at the current
  position the search moves one character on (a match begins with the ASCII character
  \<open>/\<close>, so moving by bytes and moving by runes find the same matches).
\<close>

function findAll :: "string \<Rightarrow> string list list" where
  "findAll s =
     (case match_here xpath_re s of
        Some (caps, rest) \<Rightarrow> submatches s caps rest # findAll rest
      | None \<Rightarrow> (case s of [] \<Rightarrow> [] | _ # cs \<Rightarrow> findAll cs))"
  by pat_completeness auto
termination
  by (relation "measure length") (auto dest: match_here_xpath_shorter)

declare findAll.simps [simp del]

section \<open>\<open>parseXPathToXML\<close>\<close>

text \<open>
  The first loop writes, for every match, the open tag of the element and, when groups 2
  and 3 are both non-empty, the child element of the condition; it also records the open
  tags. The second loop closes the recorded tags, last opened first.
\<close>

definition open_segment :: "string \<times> string list \<Rightarrow> string list \<Rightarrow> string \<times> string list" where
  \<comment> \<open>the body of \<open>for _, match := range matches\<close> on the pair (buffer, openTags)\<close>
  "open_segment st m =
     (let buffer = fst st; openTags = snd st;
          element = m ! 1;
          buffer = buffer @ ''<'' @ element @ ''>'';
          openTags = openTags @ [element]
      in if m ! 2 \<noteq> [] \<and> m ! 3 \<noteq> []
         then (let conditionTag = m ! 2; v = m ! 3
               in (buffer @ ''<'' @ conditionTag @ ''>'' @ html_EscapeString v
                          @ ''</'' @ conditionTag @ ''>'', openTags))
         else (buffer, openTags))"

definition close_tags :: "string \<Rightarrow> string list \<Rightarrow> string" where
  \<comment> \<open>\<open>for i := len(openTags) - 1; i >= 0; i--\<close>\<close>
  "close_tags buffer openTags =
     foldl (\<lambda>b t. b @ ''</'' @ t @ ''>'') buffer (rev openTags)"

definition parseXPathToXML :: "string \<Rightarrow> error + string" where
  "parseXPathToXML xpath =
     (if \<not> prefix ''/'' xpath then Inl XPathMustStartWithSlash
      else let matches = findAll xpath
           in if length matches = 0 then Inl XPathInvalidFormat
              else (let st = foldl open_segment ([], []) matches
                    in Inr (close_tags (fst st) (snd st))))"

section \<open>The encoder and the decoder of \<open>encoding/xml\<close>\<close>

text \<open>
  An \<open>xml.Encoder\<close> is modelled by the bytes it has written. A start element is
  modelled by its local name (namespaces and attributes play no part in \<open>ops.go\<close>).
  \<open>EncodeElement\<close> refuses a start element without a name; for a struct without fields
  it writes the start and the end tag, and for a struct whose only field is tagged
  \<open>,innerxml\<close> it writes the field verbatim between the two tags.
\<close>

type_synonym Encoder = string

definition EncodeElement_empty :: "Encoder \<Rightarrow> string \<Rightarrow> error option \<times> Encoder" where
  \<comment> \<open>\<open>e.EncodeElement(struct{}{}, start)\<close>\<close>
  "EncodeElement_empty e start =
     (if start = [] then (Some MissingStartName, e)
      else (None, e @ ''<'' @ start @ ''>'' @ ''</'' @ start @ ''>''))"

text \<open>
  \<open>EncodeElement\<close> ends by flushing the encoder and returns the error of the flush. The
  writer behind the encoder belongs to the caller of \<open>MarshalXML\<close>, which is not part of
  \<open>ops.go\<close>. \<open>EncodeElement_empty\<close> above is the encoding over a writer that accepts
  every write. Where the question is when \<open>MarshalXML\<close> returns an error, the outcome of
  the flush is the parameter \<open>flush\<close>: a function of the bytes the encoder has been given.
\<close>

definition EncodeElement_innerxml ::
  "(string \<Rightarrow> error option) \<Rightarrow> Encoder \<Rightarrow> string \<Rightarrow> string \<Rightarrow> error option \<times> Encoder" where
  \<comment> \<open>\<open>e.EncodeElement(&v, start)\<close> for \<open>v\<close> a struct with the one field \<open>Elem\<close>, tagged \<open>,innerxml\<close>\<close>
  "EncodeElement_innerxml flush e start inner =
     (if start = [] then (Some MissingStartName, e)
      else (let e' = e @ ''<'' @ start @ ''>'' @ inner @ ''</'' @ start @ ''>''
            in (flush e', e')))"

text \<open>
  An \<open>xml.Decoder\<close> is modelled by the tokens it has not read yet. \<open>render\<close> gives the
  bytes of a token sequence as the encoder writes them.
\<close>

datatype token = StartElement string | EndElement string | CharData string

type_synonym Decoder = "token list"

fun render :: "token list \<Rightarrow> string" where
  "render [] = []"
| "render (StartElement n # ts) = ''<'' @ n @ ''>'' @ render ts"
| "render (EndElement n # ts) = ''</'' @ n @ ''>'' @ render ts"
| "render (CharData c # ts) = html_EscapeString c @ render ts"

text \<open>
  Decoding into a struct without fields reads up to the end tag of the element whose
  start tag has been read, skipping its content; the decoder reports a syntax error
  when the input ends first or an end tag does not close the innermost open element.
  The first argument is the stack of open elements.
\<close>

fun skip_content :: "string list \<Rightarrow> Decoder \<Rightarrow> Decoder option" where
  "skip_content [] d = Some d"
| "skip_content (n # stk) [] = None"
| "skip_content (n # stk) (StartElement m # d) = skip_content (m # n # stk) d"
| "skip_content (n # stk) (EndElement m # d) = (if m = n then skip_content stk d else None)"
| "skip_content (n # stk) (CharData c # d) = skip_content (n # stk) d"

definition DecodeElement_empty :: "Decoder \<Rightarrow> string \<Rightarrow> error option \<times> Decoder" where
  \<comment> \<open>\<open>d.DecodeElement(v, &start)\<close> for \<open>v\<close> a pointer to \<open>struct{}\<close>\<close>
  "DecodeElement_empty d start =
     (case skip_content [start] d of None \<Rightarrow> (Some XMLSyntaxError, []) | Some d' \<Rightarrow> (None, d'))"

section \<open>\<open>ExtantBool\<close>\<close>

definition ExtantBool_MarshalXML :: "bool \<Rightarrow> Encoder \<Rightarrow> string \<Rightarrow> error option \<times> Encoder" where
  "ExtantBool_MarshalXML b e start =
     (if \<not> b then (None, e) else EncodeElement_empty e start)"

definition ExtantBool_UnmarshalXML :: "bool \<Rightarrow> Decoder \<Rightarrow> string \<Rightarrow> error option \<times> bool \<times> Decoder" where
  \<comment> \<open>the result holds the error, the value of \<open>*b\<close> afterwards and the decoder;
      \<open>v\<close> points to a fresh struct, so \<open>v != nil\<close> is true\<close>
  "ExtantBool_UnmarshalXML b d start =
     (case DecodeElement_empty d start of
        (Some err, d') \<Rightarrow> (Some err, b, d')
      | (None, d') \<Rightarrow> (None, True, d'))"

lemma skip_content_shorter:
  "skip_content stk d = Some d' \<Longrightarrow> length d' \<le> length d"
  by (induction stk d rule: skip_content.induct) (auto split: if_splits)

lemma ExtantBool_UnmarshalXML_shorter:
  "ExtantBool_UnmarshalXML b d start = (None, b', d') \<Longrightarrow> length d' \<le> length d"
  by (auto simp: ExtantBool_UnmarshalXML_def DecodeElement_empty_def
           split: option.splits dest: skip_content_shorter)

text \<open>
  \<open>OKResp\<close> has the one field \<open>OK ExtantBool `xml:"ok"`\<close>. Decoding the content of a
  reply into it starts from the zero value \<open>false\<close>; \<open>encoding/xml\<close> calls \<open>UnmarshalXML\<close>
  for every child element named \<open>ok\<close>, skips every other child, and stops at the end tag
  of the reply. The function begins after the start tag of the reply, whose name it has
  not seen: the end tag that no child has opened is taken as that of the reply. (The
  decoder itself compares its name with the start tag and reports a syntax error when
  they differ.)
\<close>

function unmarshal_OKResp :: "bool \<Rightarrow> Decoder \<Rightarrow> error + bool \<times> Decoder" where
  "unmarshal_OKResp ok [] = Inl XMLSyntaxError"
| "unmarshal_OKResp ok (EndElement n # d) = Inr (ok, d)"
| "unmarshal_OKResp ok (CharData c # d) = unmarshal_OKResp ok d"
| "unmarshal_OKResp ok (StartElement n # d) =
     (if n = ''ok''
      then (case ExtantBool_UnmarshalXML ok d n of
              (None, ok', d') \<Rightarrow> unmarshal_OKResp ok' d'
            | (Some err, _, _) \<Rightarrow> Inl err)
      else (case skip_content [n] d of
              Some d' \<Rightarrow> unmarshal_OKResp ok d'
            | None \<Rightarrow> Inl XMLSyntaxError))"
  by pat_completeness auto
termination
  by (relation "measure (\<lambda>(ok, d). length d)")
     (auto simp: less_Suc_eq_le
           dest: ExtantBool_UnmarshalXML_shorter[OF sym] skip_content_shorter)

section \<open>\<open>Datastore\<close>\<close>

subsection \<open>\<open>xml.EscapeText\<close>\<close>

text \<open>
  \<open>xml.EscapeText\<close> reads its input rune by rune (\<open>utf8.DecodeRune\<close>): \<open>rune_width\<close> is
  the number of bytes of the rune at the head of the input, 1 for a byte that begins no
  valid encoding. The five markup characters, tab, newline and carriage return are
  written as character references; a byte that is not valid UTF-8 and a rune outside
  the character range of XML (the other control characters, U+FFFE and U+FFFF) are
  written as U+FFFD; everything else is copied.
\<close>

definition byte_in :: "char \<Rightarrow> nat \<Rightarrow> nat \<Rightarrow> bool" where
  "byte_in c lo hi = (lo \<le> (of_char c :: nat) \<and> (of_char c :: nat) \<le> hi)"

definition is_cont :: "char \<Rightarrow> bool" where
  "is_cont c = byte_in c 0x80 0xBF"

fun rune_width :: "string \<Rightarrow> nat" where
  "rune_width (a # b # c # d # s) =
     (if byte_in a 0xC2 0xDF \<and> is_cont b then 2
      else if a = CHR 0xE0 \<and> byte_in b 0xA0 0xBF \<and> is_cont c then 3
      else if (byte_in a 0xE1 0xEC \<or> byte_in a 0xEE 0xEF) \<and> is_cont b \<and> is_cont c then 3
      else if a = CHR 0xED \<and> byte_in b 0x80 0x9F \<and> is_cont c then 3
      else if a = CHR 0xF0 \<and> byte_in b 0x90 0xBF \<and> is_cont c \<and> is_cont d then 4
      else if byte_in a 0xF1 0xF3 \<and> is_cont b \<and> is_cont c \<and> is_cont d then 4
      else if a = CHR 0xF4 \<and> byte_in b 0x80 0x8F \<and> is_cont c \<and> is_cont d then 4
      else 1)"
| "rune_width [a, b, c] =
     (if byte_in a 0xC2 0xDF \<and> is_cont b then 2
      else if a = CHR 0xE0 \<and> byte_in b 0xA0 0xBF \<and> is_cont c then 3
      else if (byte_in a 0xE1 0xEC \<or> byte_in a 0xEE 0xEF) \<and> is_cont b \<and> is_cont c then 3
      else if a = CHR 0xED \<and> byte_in b 0x80 0x9F \<and> is_cont c then 3
      else 1)"
| "rune_width [a, b] = (if byte_in a 0xC2 0xDF \<and> is_cont b then 2 else 1)"
| "rune_width [a] = 1"
| "rune_width [] = 0"

definition replacement_char :: string where
  \<comment> \<open>U+FFFD in UTF-8\<close>
  "replacement_char = [CHR 0xEF, CHR 0xBF, CHR 0xBD]"

definition escape_byte :: "char \<Rightarrow> string" where
  \<comment> \<open>a rune of width 1\<close>
  "escape_byte c =
     (if c = dquote then ''&#34;''
      else if c = squote then ''&#39;''
      else if c = CHR ''&'' then ''&amp;''
      else if c = CHR ''<'' then ''&lt;''
      else if c = CHR ''>'' then ''&gt;''
      else if c = CHR 0x09 then ''&#x9;''
      else if c = CHR 0x0A then ''&#xA;''
      else if c = CHR 0x0D then ''&#xD;''
      else if byte_in c 0x20 0x7F then [c]
      else replacement_char)"

definition escape_rune :: "string \<Rightarrow> string" where
  \<comment> \<open>the bytes of one rune\<close>
  "escape_rune r =
     (if length r = 1 then escape_byte (hd r)
      else if r = [CHR 0xEF, CHR 0xBF, CHR 0xBE] \<or> r = [CHR 0xEF, CHR 0xBF, CHR 0xBF]
      then replacement_char
      else r)"

lemma rune_width_pos: "s \<noteq> [] \<Longrightarrow> 0 < rune_width s"
  by (induction s rule: rune_width.induct) auto

function escape_text :: "string \<Rightarrow> string" where
  "escape_text s =
     (if s = [] then []
      else escape_rune (take (rune_width s) s) @ escape_text (drop (rune_width s) s))"
  by pat_completeness auto
termination
  by (relation "measure length") (auto simp: rune_width_pos)

declare escape_text.simps [simp del]

definition xml_EscapeText :: "string \<Rightarrow> string \<Rightarrow> error option \<times> string" where
  \<comment> \<open>the writer is a \<open>strings.Builder\<close>, whose \<open>Write\<close> never fails\<close>
  "xml_EscapeText buf input = (None, buf @ escape_text input)"

definition escapeXML :: "string \<Rightarrow> error + string" where
  "escapeXML input =
     (case xml_EscapeText [] input of
        (Some err, buf) \<Rightarrow> Inl err
      | (None, buf) \<Rightarrow> Inr buf)"

definition Datastore_MarshalXML ::
  "(string \<Rightarrow> error option) \<Rightarrow> string \<Rightarrow> Encoder \<Rightarrow> string \<Rightarrow> error option \<times> Encoder" where
  "Datastore_MarshalXML flush s e start =
     (if s = [] then (Some EmptyDatastore, e)
      else (case escapeXML s of
              Inl err \<Rightarrow> (Some (InvalidStringElement err), e)
            | Inr escaped \<Rightarrow> EncodeElement_innerxml flush e start (''<'' @ escaped @ ''/>'')))"

section \<open>The operations\<close>

text \<open>
  \<open>Session.Call\<close> is not part of \<open>ops.go\<close>: every operation takes it as the parameter
  \<open>call\<close>, a function from the request and the session to the outcome and the session
  afterwards. The session type is left open. An operation that returns without calling
  \<open>call\<close> returns the session it was given, whatever \<open>call\<close> is.
\<close>

subsection \<open>\<open>GetConfig\<close>\<close>

record GetConfigReq =
  Source :: string
  Filter :: string

type_synonym rpcOptions = "GetConfigReq \<Rightarrow> GetConfigReq"

definition WithFilter :: "string \<Rightarrow> rpcOptions" where
  \<open>WithFilter xpath c =
     (case parseXPathToXML xpath of
        Inr subtree \<Rightarrow> c\<lparr>Filter := ''<filter type="subtree">'' @ subtree @ ''</filter>''\<rparr>
      | Inl err \<Rightarrow> c)\<close>

definition GetConfig ::
  "(GetConfigReq \<Rightarrow> 's \<Rightarrow> (error + string) \<times> 's) \<Rightarrow> 's \<Rightarrow> string \<Rightarrow> rpcOptions list
     \<Rightarrow> (error + string) \<times> 's" where
  \<comment> \<open>the reply of \<open>call\<close> is the \<open>Config\<close> field of \<open>GetConfigReply\<close>\<close>
  "GetConfig call s source opts =
     (let req = \<lparr>Source = source, Filter = []\<rparr>;
          req = foldl (\<lambda>r opt. opt r) req opts
      in case call req s of
           (Inl err, s') \<Rightarrow> (Inl err, s')
         | (Inr config, s') \<Rightarrow> (Inr config, s'))"

subsection \<open>\<open>EditConfig\<close>\<close>

text \<open>
  The \<open>config\<close> argument has the type \<open>any\<close>: the datatype lists the dynamic types that
  \<open>EditConfig\<close> tells apart, \<open>AnyInnerXML\<close> being the struct with the one field
  \<open>Inner []byte `xml:",innerxml"`\<close> that it builds, and \<open>AnyOther\<close> a value of any other
  type. Both \<open>Config\<close> and \<open>URL\<close> are tagged \<open>omitempty\<close>: the encoder leaves out
  \<open>Config\<close> when it is the nil interface and \<open>URL\<close> when it is the empty string. For a
  \<open>Config\<close> that is not nil the encoder looks into the value: it writes the element for
  a string, a byte slice, a \<open>URL\<close> and a struct, whatever they hold, and for a value of
  another type it may write nothing (a nil pointer, an empty slice of structs). What it
  does for such a value is the parameter \<open>writes\<close>.
\<close>

datatype 'a any =
    AnyNil
  | AnyString string
  | AnyBytes string
  | AnyURL string
  | AnyInnerXML string
  | AnyOther 'a

record 'a EditConfigReq =
  Target :: string
  DefaultMergeStrategy :: string
  TestStrategy :: string
  ErrorStrategy :: string
  Config :: "'a any"
  URL :: string

datatype EditConfigOption =
    WithDefaultMergeStrategy string
  | WithTestStrategy string
  | WithErrorStrategy string

fun edit_apply :: "EditConfigOption \<Rightarrow> 'a EditConfigReq \<Rightarrow> 'a EditConfigReq" where
  "edit_apply (WithDefaultMergeStrategy op) req = req\<lparr>DefaultMergeStrategy := op\<rparr>"
| "edit_apply (WithTestStrategy op) req = req\<lparr>TestStrategy := op\<rparr>"
| "edit_apply (WithErrorStrategy opt) req = req\<lparr>ErrorStrategy := opt\<rparr>"

definition EditConfig_request :: "string \<Rightarrow> 'a any \<Rightarrow> EditConfigOption list \<Rightarrow> 'a EditConfigReq" where
  \<comment> \<open>the request that \<open>EditConfig\<close> hands to \<open>Session.Call\<close>\<close>
  "EditConfig_request target config opts =
     (let req = \<lparr>Target = target, DefaultMergeStrategy = [], TestStrategy = [],
                 ErrorStrategy = [], Config = AnyNil, URL = []\<rparr>;
          req = (case config of
                   AnyString v \<Rightarrow> req\<lparr>Config := AnyInnerXML v\<rparr>
                 | AnyBytes v \<Rightarrow> req\<lparr>Config := AnyInnerXML v\<rparr>
                 | AnyURL v \<Rightarrow> req\<lparr>URL := v\<rparr>
                 | _ \<Rightarrow> req\<lparr>Config := config\<rparr>)
      in foldl (\<lambda>r opt. edit_apply opt r) req opts)"

definition EditConfig ::
  "('a EditConfigReq \<Rightarrow> 's \<Rightarrow> error option \<times> 's) \<Rightarrow> 's \<Rightarrow> string \<Rightarrow> 'a any
     \<Rightarrow> EditConfigOption list \<Rightarrow> error option \<times> 's" where
  "EditConfig call s target config opts = call (EditConfig_request target config opts) s"

definition config_on_wire :: "('a \<Rightarrow> bool) \<Rightarrow> 'a EditConfigReq \<Rightarrow> bool" where
  \<comment> \<open>\<open>xml:"config,omitempty"\<close> on a field of interface type\<close>
  "config_on_wire writes req =
     (case Config req of
        AnyNil \<Rightarrow> False
      | AnyOther x \<Rightarrow> writes x
      | _ \<Rightarrow> True)"

definition url_on_wire :: "'a EditConfigReq \<Rightarrow> bool" where
  \<comment> \<open>\<open>xml:"url,omitempty"\<close> on a field of type string\<close>
  "url_on_wire req = (URL req \<noteq> [])"

subsection \<open>\<open>Commit\<close>\<close>

text \<open>
  A \<open>time.Duration\<close> is a number of nanoseconds. \<open>int64(o.Seconds())\<close> goes through a
  floating-point number: it is the parameter \<open>seconds\<close>.
\<close>

record CommitReq =
  Confirmed :: bool
  ConfirmTimeout :: int
  Persist :: string
  PersistID :: string

datatype CommitOption =
    WithConfirmed
  | WithConfirmedTimeout int
  | WithPersist string
  | WithPersistID string

fun commit_apply :: "(int \<Rightarrow> int) \<Rightarrow> CommitOption \<Rightarrow> CommitReq \<Rightarrow> CommitReq" where
  "commit_apply seconds WithConfirmed req = req\<lparr>Confirmed := True\<rparr>"
| "commit_apply seconds (WithConfirmedTimeout timeout) req =
     req\<lparr>Confirmed := True, ConfirmTimeout := seconds timeout\<rparr>"
| "commit_apply seconds (WithPersist ident) req = req\<lparr>Confirmed := True, Persist := ident\<rparr>"
| "commit_apply seconds (WithPersistID ident) req = req\<lparr>PersistID := ident\<rparr>"

definition commit_request :: "(int \<Rightarrow> int) \<Rightarrow> CommitOption list \<Rightarrow> CommitReq" where
  \<comment> \<open>\<open>var req CommitReq\<close> after \<open>for _, opt := range opts { opt.apply(&req) }\<close>\<close>
  "commit_request seconds opts =
     foldl (\<lambda>r opt. commit_apply seconds opt r)
       \<lparr>Confirmed = False, ConfirmTimeout = 0, Persist = [], PersistID = []\<rparr> opts"

definition Commit ::
  "(CommitReq \<Rightarrow> 's \<Rightarrow> error option \<times> 's) \<Rightarrow> (int \<Rightarrow> int) \<Rightarrow> 's \<Rightarrow> CommitOption list
     \<Rightarrow> error option \<times> 's" where
  "Commit call seconds s opts =
     (let req = commit_request seconds opts
      in if PersistID req \<noteq> [] \<and> Confirmed req then (Some PersistIDWithConfirmed, s)
         else call req s)"

subsection \<open>\<open>CreateSubscription\<close>\<close>

text \<open>\<open>time.Time(o).Format(time.RFC3339)\<close> is the parameter \<open>rfc3339\<close>.\<close>

record CreateSubscriptionReq =
  Stream :: string
  SubscriptionFilter :: string  \<comment> \<open>the field \<open>Filter\<close>\<close>
  StartTime :: string
  EndTime :: string

datatype 't CreateSubscriptionOption =
    WithStreamOption string
  | WithStartTimeOption 't
  | WithEndTimeOption 't
  | WithFilterOption string

fun subscription_apply ::
  "('t \<Rightarrow> string) \<Rightarrow> 't CreateSubscriptionOption \<Rightarrow> CreateSubscriptionReq \<Rightarrow> CreateSubscriptionReq" where
  "subscription_apply rfc3339 (WithStreamOption x) req = req\<lparr>Stream := x\<rparr>"
| "subscription_apply rfc3339 (WithStartTimeOption x) req = req\<lparr>StartTime := rfc3339 x\<rparr>"
| "subscription_apply rfc3339 (WithEndTimeOption x) req = req\<lparr>EndTime := rfc3339 x\<rparr>"
| \<open>subscription_apply rfc3339 (WithFilterOption x) req =
     (case parseXPathToXML x of
        Inr subtree \<Rightarrow>
          req\<lparr>SubscriptionFilter := ''<filter type="subtree">'' @ subtree @ ''</filter>''\<rparr>
      | Inl err \<Rightarrow> req)\<close>

definition CreateSubscription ::
  "(CreateSubscriptionReq \<Rightarrow> 's \<Rightarrow> error option \<times> 's) \<Rightarrow> ('t \<Rightarrow> string) \<Rightarrow> 's
     \<Rightarrow> 't CreateSubscriptionOption list \<Rightarrow> error option \<times> 's" where
  "CreateSubscription call rfc3339 s opts =
     (let req = \<lparr>Stream = [], SubscriptionFilter = [], StartTime = [], EndTime = []\<rparr>;
          req = foldl (\<lambda>r opt. subscription_apply rfc3339 opt r) req opts
      in call req s)"

section \<open>Sessions, parameters and option lists used in the statements\<close>

text \<open>
  Two instances of \<open>Session.Call\<close> for the concrete cases: both record the request in
  the session and report success. \<open>whole_seconds\<close> is an instance of the conversion of
  a duration to seconds: it drops the fraction of a second, and is what
  \<open>int64(o.Seconds())\<close> gives for a duration of a whole number of seconds, the only
  durations it is used at. \<open>epoch_rfc3339\<close> is an instance of the formatting of a time,
  \<open>accepting_writer\<close> the flush over a writer that accepts every write, and
  \<open>pointer_written\<close> what the encoder does for a pointer (\<open>None\<close> is the nil pointer).
\<close>

definition recording_call :: "'r \<Rightarrow> 'r list \<Rightarrow> error option \<times> 'r list" where
  "recording_call req s = (None, s @ [req])"

definition recording_get :: "GetConfigReq \<Rightarrow> GetConfigReq list \<Rightarrow> (error + string) \<times> GetConfigReq list" where
  "recording_get req s = (Inr ''<data/>'', s @ [req])"

definition whole_seconds :: "int \<Rightarrow> int" where
  "whole_seconds d =
     (if 0 \<le> d then d div 1000000000 else - ((- d) div 1000000000))"

definition accepting_writer :: "string \<Rightarrow> error option" where
  "accepting_writer bytes = None"

definition pointer_written :: "string option \<Rightarrow> bool" where
  "pointer_written p = (p \<noteq> None)"

definition epoch_rfc3339 :: "unit \<Rightarrow> string" where
  "epoch_rfc3339 t = ''1970-01-01T00:00:00Z''"

text \<open>
  The options of \<open>Commit\<close> that are confirmed directives, the identifiers of the
  \<open>WithPersistID\<close> options of a list in the order of the list, and the test that
  \<open>Commit\<close> makes before it calls \<open>Session.Call\<close>.
\<close>

fun is_confirmed_directive :: "CommitOption \<Rightarrow> bool" where
  "is_confirmed_directive WithConfirmed = True"
| "is_confirmed_directive (WithConfirmedTimeout t) = True"
| "is_confirmed_directive (WithPersist i) = True"
| "is_confirmed_directive (WithPersistID i) = False"

fun persist_ids :: "CommitOption list \<Rightarrow> string list" where
  "persist_ids [] = []"
| "persist_ids (WithPersistID i # opts) = i # persist_ids opts"
| "persist_ids (opt # opts) = persist_ids opts"

definition locally_rejected :: "(int \<Rightarrow> int) \<Rightarrow> CommitOption list \<Rightarrow> bool" where
  "locally_rejected seconds opts =
     (PersistID (commit_request seconds opts) \<noteq> [] \<and> Confirmed (commit_request seconds opts))"

text \<open>
  A path has a segment when a \<open>/\<close> is followed by a character of the class \<open>[\w-]\<close>,
  the class of the pattern; \<open>has_word_segment\<close> asks for a word character (\<open>\w\<close>) instead.
\<close>

fun has_segment :: "string \<Rightarrow> bool" where
  "has_segment (a # b # cs) = ((a = CHR ''/'' \<and> is_name_char b) \<or> has_segment (b # cs))"
| "has_segment cs = False"

fun has_word_segment :: "string \<Rightarrow> bool" where
  "has_word_segment (a # b # cs) = ((a = CHR ''/'' \<and> is_word_char b) \<or> has_word_segment (b # cs))"
| "has_word_segment cs = False"

text \<open>
  Well-formed content as trees, and the tokens the decoder reads for it.
\<close>

datatype xml = Element string "xml list" | Text string

fun flatten :: "xml \<Rightarrow> token list" where
  "flatten (Element n cs) = StartElement n # concat (map flatten cs) @ [EndElement n]"
| "flatten (Text t) = [CharData t]"

definition flatten_all :: "xml list \<Rightarrow> token list" where
  "flatten_all cs = concat (map flatten cs)"

fun is_ok_element :: "xml \<Rightarrow> bool" where
  "is_ok_element (Element n cs) = (n = ''ok'')"
| "is_ok_element (Text t) = False"

section \<open>\<open>Commit\<close>: what the options leave in the request\<close>

lemma Confirmed_foldl:
  "Confirmed (foldl (\<lambda>r opt. commit_apply seconds opt r) req opts) =
     (Confirmed req \<or> (\<exists>opt\<in>set opts. is_confirmed_directive opt))"
proof (induction opts arbitrary: req)
  case Nil
  show ?case by simp
next
  case (Cons opt opts)
  show ?case by (cases opt) (simp_all add: Cons.IH)
qed

lemma PersistID_foldl:
  "PersistID (foldl (\<lambda>r opt. commit_apply seconds opt r) req opts) =
     (if persist_ids opts = [] then PersistID req else last (persist_ids opts))"
proof (induction opts arbitrary: req)
  case Nil
  show ?case by simp
next
  case (Cons opt opts)
  show ?case by (cases opt) (simp_all add: Cons.IH)
qed

lemma Confirmed_commit_request:
  "Confirmed (commit_request seconds opts) = (\<exists>opt\<in>set opts. is_confirmed_directive opt)"
  by (simp add: commit_request_def Confirmed_foldl)

lemma PersistID_commit_request:
  "PersistID (commit_request seconds opts) =
     (if persist_ids opts = [] then [] else last (persist_ids opts))"
  by (simp add: commit_request_def PersistID_foldl)

lemma persist_ids_mset:
  "mset (persist_ids opts) =
     image_mset (\<lambda>opt. case opt of WithPersistID i \<Rightarrow> i | _ \<Rightarrow> [])
       (filter_mset (\<lambda>opt. \<not> is_confirmed_directive opt) (mset opts))"
  by (induction opts rule: persist_ids.induct) auto

lemma persist_ids_perm:
  assumes "mset opts = mset opts'" shows "mset (persist_ids opts) = mset (persist_ids opts')"
  by (simp add: persist_ids_mset assms)

lemma Commit_cases:
  "Commit call seconds s opts =
     (if locally_rejected seconds opts then (Some PersistIDWithConfirmed, s)
      else call (commit_request seconds opts) s)"
  by (simp add: Commit_def locally_rejected_def Let_def)

lemma PersistID_nonempty_agree:
  assumes "\<forall>a\<in>set (persist_ids opts). \<forall>b\<in>set (persist_ids opts). (a = []) = (b = [])"
  shows "(PersistID (commit_request seconds opts) \<noteq> []) =
           (persist_ids opts \<noteq> [] \<and> (\<forall>a\<in>set (persist_ids opts). a \<noteq> []))"
proof (cases "persist_ids opts = []")
  case True
  then show ?thesis by (simp add: PersistID_commit_request)
next
  case False
  then have l: "last (persist_ids opts) \<in> set (persist_ids opts)" by simp
  from assms l have "\<forall>a\<in>set (persist_ids opts). (a = []) = (last (persist_ids opts) = [])"
    by blast
  then have "(last (persist_ids opts) \<noteq> []) = (\<forall>a\<in>set (persist_ids opts). a \<noteq> [])"
    using l by blast
  with False show ?thesis
    by (simp only: PersistID_commit_request if_False simp_thms)
qed

text \<open>
  Claim C2. Whenever the options given to \<open>Commit\<close> leave a non-empty persist-id in the
  request and one of them is a confirmed directive (\<open>WithConfirmed\<close>,
  \<open>WithConfirmedTimeout\<close> or \<open>WithPersist\<close>), \<open>Commit\<close> returns the local validation
  error and the session it was given, whatever \<open>Session.Call\<close> is: the call is not made.
\<close>

theorem Commit_rejects_persist_id_with_confirmed:
  assumes "PersistID (commit_request seconds opts) \<noteq> []"
    and "\<exists>opt\<in>set opts. is_confirmed_directive opt"
  shows "Commit call seconds s opts = (Some PersistIDWithConfirmed, s)"
  using assms by (simp add: Commit_def Confirmed_commit_request)

theorem Commit_rejects_witness:
  "PersistID (commit_request whole_seconds [WithPersistID ''c1'', WithConfirmedTimeout 120000000000]) = ''c1''
   \<and> Commit recording_call whole_seconds []
        [WithPersistID ''c1'', WithConfirmedTimeout 120000000000] = (Some PersistIDWithConfirmed, [])"
proof -
  have a: "PersistID (commit_request whole_seconds [WithPersistID ''c1'', WithConfirmedTimeout 120000000000]) = ''c1''"
    by (simp add: commit_request_def)
  have b: "\<exists>opt\<in>set [WithPersistID ''c1'', WithConfirmedTimeout 120000000000]. is_confirmed_directive opt"
    by simp
  from a have c: "PersistID (commit_request whole_seconds [WithPersistID ''c1'', WithConfirmedTimeout 120000000000]) \<noteq> []"
    by simp
  from Commit_rejects_persist_id_with_confirmed[OF c b, of recording_call "[]"] a show ?thesis by simp
qed

lemma set_persist_ids: "set (persist_ids opts) = {x. WithPersistID x \<in> set opts}"
  by (induction opts rule: persist_ids.induct) auto

lemma persist_ids_append: "persist_ids (xs @ ys) = persist_ids xs @ persist_ids ys"
  by (induction xs rule: persist_ids.induct) auto

lemma locally_rejected_iff:
  "locally_rejected seconds opts =
     ((\<exists>opt\<in>set opts. is_confirmed_directive opt)
      \<and> persist_ids opts \<noteq> [] \<and> last (persist_ids opts) \<noteq> [])"
  unfolding locally_rejected_def Confirmed_commit_request PersistID_commit_request
  by auto

lemma locally_rejected_no_directive:
  "\<forall>opt\<in>set opts. \<not> is_confirmed_directive opt \<Longrightarrow> \<not> locally_rejected seconds opts"
  by (simp add: locally_rejected_iff)

lemma locally_rejected_agree:
  assumes "mset opts' = mset opts"
    and "\<forall>a\<in>set (persist_ids opts). \<forall>b\<in>set (persist_ids opts). (a = []) = (b = [])"
  shows "locally_rejected seconds opts' = locally_rejected seconds opts"
proof -
  have ids: "set (persist_ids opts') = set (persist_ids opts)"
    using persist_ids_perm[OF assms(1)] by (rule mset_eq_setD)
  have ne: "(persist_ids opts' = []) = (persist_ids opts = [])"
    using ids set_empty by metis
  have agree': "\<forall>a\<in>set (persist_ids opts'). \<forall>b\<in>set (persist_ids opts'). (a = []) = (b = [])"
    using assms(2) unfolding ids .
  have set_eq: "set opts' = set opts"
    using assms(1) by (rule mset_eq_setD)
  have p: "(PersistID (commit_request seconds opts') \<noteq> []) =
           (PersistID (commit_request seconds opts) \<noteq> [])"
    unfolding PersistID_nonempty_agree[OF assms(2)] PersistID_nonempty_agree[OF agree'] ids ne ..
  have c: "Confirmed (commit_request seconds opts') = Confirmed (commit_request seconds opts)"
    unfolding Confirmed_commit_request set_eq ..
  show ?thesis
    unfolding locally_rejected_def p c ..
qed

text \<open>
  Moving one \<open>WithPersistID\<close> of the list to its end makes that option decide.
\<close>

lemma move_last:
  assumes "WithPersistID x \<in> set opts"
  shows "mset (remove1 (WithPersistID x) opts @ [WithPersistID x]) = mset opts"
    and "locally_rejected seconds (remove1 (WithPersistID x) opts @ [WithPersistID x])
           = ((\<exists>opt\<in>set opts. is_confirmed_directive opt) \<and> x \<noteq> [])"
proof -
  show m: "mset (remove1 (WithPersistID x) opts @ [WithPersistID x]) = mset opts"
    using assms by simp
  have s: "set (remove1 (WithPersistID x) opts @ [WithPersistID x]) = set opts"
    using m by (rule mset_eq_setD)
  have l: "persist_ids (remove1 (WithPersistID x) opts @ [WithPersistID x])
             = persist_ids (remove1 (WithPersistID x) opts) @ [x]"
    by (simp add: persist_ids_append)
  show "locally_rejected seconds (remove1 (WithPersistID x) opts @ [WithPersistID x])
           = ((\<exists>opt\<in>set opts. is_confirmed_directive opt) \<and> x \<noteq> [])"
    unfolding locally_rejected_iff s l by simp
qed

lemma order_matters:
  assumes d: "\<exists>opt\<in>set opts. is_confirmed_directive opt"
    and a: "a \<in> set (persist_ids opts)" "a = []"
    and b: "b \<in> set (persist_ids opts)" "b \<noteq> []"
  shows "\<exists>opts'. mset opts' = mset opts
           \<and> locally_rejected seconds opts' \<noteq> locally_rejected seconds opts"
proof -
  from a(1) b(1) have ia: "WithPersistID a \<in> set opts" and ib: "WithPersistID b \<in> set opts"
    by (simp_all add: set_persist_ids)
  have ra: "\<not> locally_rejected seconds (remove1 (WithPersistID a) opts @ [WithPersistID a])"
    unfolding move_last(2)[OF ia] using a(2) by simp
  have rb: "locally_rejected seconds (remove1 (WithPersistID b) opts @ [WithPersistID b])"
    unfolding move_last(2)[OF ib] using b(2) d by simp
  show ?thesis
  proof (cases "locally_rejected seconds opts")
    case True
    with ra move_last(1)[OF ia] show ?thesis by blast
  next
    case False
    with rb move_last(1)[OF ib] show ?thesis by blast
  qed
qed

text \<open>
  Claim C10, as amended. \<open>WithPersist\<close> always sets the confirmed flag, and the last
  \<open>WithPersistID\<close> of the list decides the persist-id of the request. \<open>Commit\<close> makes its
  test after all options are applied. The outcome of the test is the same for every
  order of the options exactly when the list holds no confirmed directive or its
  \<open>WithPersistID\<close> options are all empty or all non-empty. (With a confirmed directive, an
  empty and a non-empty \<open>WithPersistID\<close>, one order is rejected and another is not.)
\<close>

theorem Commit_validation_order:
  "Confirmed (commit_apply seconds (WithPersist ident) req)
   \<and> PersistID (commit_request seconds opts)
       = (if persist_ids opts = [] then [] else last (persist_ids opts))
   \<and> Commit call seconds s opts =
       (if locally_rejected seconds opts then (Some PersistIDWithConfirmed, s)
        else call (commit_request seconds opts) s)
   \<and> (\<forall>opts'. mset opts' = mset opts \<longrightarrow>
          locally_rejected seconds opts' = locally_rejected seconds opts)
       = ((\<forall>opt\<in>set opts. \<not> is_confirmed_directive opt)
          \<or> (\<forall>a\<in>set (persist_ids opts). \<forall>b\<in>set (persist_ids opts). (a = []) = (b = [])))"
proof -
  have w: "Confirmed (commit_apply seconds (WithPersist ident) req)"
    by simp
  have "\<forall>opts'. mset opts' = mset opts \<longrightarrow>
          locally_rejected seconds opts' = locally_rejected seconds opts"
    if n: "\<forall>opt\<in>set opts. \<not> is_confirmed_directive opt"
  proof (intro allI impI)
    fix opts' assume m: "mset opts' = mset opts"
    then have "set opts' = set opts" by (rule mset_eq_setD)
    with n have "\<forall>opt\<in>set opts'. \<not> is_confirmed_directive opt" by simp
    with n show "locally_rejected seconds opts' = locally_rejected seconds opts"
      by (simp add: locally_rejected_no_directive)
  qed
  moreover have "\<forall>opts'. mset opts' = mset opts \<longrightarrow>
          locally_rejected seconds opts' = locally_rejected seconds opts"
    if g: "\<forall>a\<in>set (persist_ids opts). \<forall>b\<in>set (persist_ids opts). (a = []) = (b = [])"
    using locally_rejected_agree[OF _ g] by blast
  moreover have "(\<forall>opt\<in>set opts. \<not> is_confirmed_directive opt)
          \<or> (\<forall>a\<in>set (persist_ids opts). \<forall>b\<in>set (persist_ids opts). (a = []) = (b = []))"
    if i: "\<forall>opts'. mset opts' = mset opts \<longrightarrow>
          locally_rejected seconds opts' = locally_rejected seconds opts"
  proof (rule ccontr)
    assume "\<not> ?thesis"
    then obtain a b where d: "\<exists>opt\<in>set opts. is_confirmed_directive opt"
      and a: "a \<in> set (persist_ids opts)" and b: "b \<in> set (persist_ids opts)"
      and ab: "(a = []) \<noteq> (b = [])"
      by blast
    show False
    proof (cases "a = []")
      case True
      with ab have "b \<noteq> []" by simp
      from order_matters[OF d a True b this] i show False by blast
    next
      case False
      with ab have "b = []" by simp
      from order_matters[OF d b this a False] i show False by blast
    qed
  qed
  ultimately have o: "(\<forall>opts'. mset opts' = mset opts \<longrightarrow>
          locally_rejected seconds opts' = locally_rejected seconds opts)
       = ((\<forall>opt\<in>set opts. \<not> is_confirmed_directive opt)
          \<or> (\<forall>a\<in>set (persist_ids opts). \<forall>b\<in>set (persist_ids opts). (a = []) = (b = [])))"
    by blast
  show ?thesis
    using w o by (simp only: PersistID_commit_request Commit_cases simp_thms)
qed

theorem Commit_validation_order_witness:
  "PersistID (commit_request whole_seconds [WithPersistID ''c0'', WithPersist ''p'', WithPersistID ''c1''])
     = ''c1''
   \<and> locally_rejected whole_seconds [WithPersist ''p'', WithPersistID ''c1'']
   \<and> locally_rejected whole_seconds [WithPersistID ''c1'', WithPersist ''p'']
   \<and> Commit recording_call whole_seconds [] [WithPersist ''p'', WithPersistID ''c1'']
       = (Some PersistIDWithConfirmed, [])
   \<and> \<not> locally_rejected whole_seconds [WithPersistID ''c1'', WithPersistID []]
   \<and> \<not> locally_rejected whole_seconds [WithPersistID [], WithPersistID ''c1'']"
proof -
  let ?r = "\<lparr>Confirmed = False, ConfirmTimeout = 0, Persist = [], PersistID = []\<rparr>"
  note t1 = Commit_validation_order[where seconds = whole_seconds and ident = "''p''"
      and req = ?r and call = recording_call and s = "[]"
      and opts = "[WithPersistID ''c1'', WithPersist ''p'']"]
  note t2 = Commit_validation_order[where seconds = whole_seconds and ident = "''p''"
      and req = ?r and call = recording_call and s = "[]"
      and opts = "[WithPersistID ''c1'', WithPersistID []]"]
  note t3 = Commit_validation_order[where seconds = whole_seconds and ident = "''p''"
      and req = ?r and call = recording_call and s = "[]"
      and opts = "[WithPersistID ''c0'', WithPersist ''p'', WithPersistID ''c1'']"]
  note t4 = Commit_validation_order[where seconds = whole_seconds and ident = "''p''"
      and req = ?r and call = recording_call and s = "[]"
      and opts = "[WithPersist ''p'', WithPersistID ''c1'']"]
  have r1: "locally_rejected whole_seconds [WithPersistID ''c1'', WithPersist ''p'']"
    by (simp add: locally_rejected_def commit_request_def)
  have r2: "\<not> locally_rejected whole_seconds [WithPersistID ''c1'', WithPersistID []]"
    by (simp add: locally_rejected_def commit_request_def)
  have g1: "(\<forall>opt\<in>set [WithPersistID ''c1'', WithPersist ''p'']. \<not> is_confirmed_directive opt)
      \<or> (\<forall>a\<in>set (persist_ids [WithPersistID ''c1'', WithPersist ''p'']).
           \<forall>b\<in>set (persist_ids [WithPersistID ''c1'', WithPersist ''p'']). (a = []) = (b = []))"
    by simp
  have g2: "(\<forall>opt\<in>set [WithPersistID ''c1'', WithPersistID []]. \<not> is_confirmed_directive opt)
      \<or> (\<forall>a\<in>set (persist_ids [WithPersistID ''c1'', WithPersistID []]).
           \<forall>b\<in>set (persist_ids [WithPersistID ''c1'', WithPersistID []]). (a = []) = (b = []))"
    by simp
  have m1: "mset [WithPersist ''p'', WithPersistID ''c1''] = mset [WithPersistID ''c1'', WithPersist ''p'']"
    by simp
  have m2: "mset [WithPersistID [], WithPersistID ''c1''] = mset [WithPersistID ''c1'', WithPersistID []]"
    by simp
  from iffD2[OF t1[THEN conjunct2, THEN conjunct2, THEN conjunct2] g1, rule_format, OF m1] r1
  have a: "locally_rejected whole_seconds [WithPersist ''p'', WithPersistID ''c1'']"
    by (simp only:)
  from iffD2[OF t2[THEN conjunct2, THEN conjunct2, THEN conjunct2] g2, rule_format, OF m2] r2
  have b: "\<not> locally_rejected whole_seconds [WithPersistID [], WithPersistID ''c1'']"
    by simp
  from t3[THEN conjunct2, THEN conjunct1]
  have c: "PersistID (commit_request whole_seconds
      [WithPersistID ''c0'', WithPersist ''p'', WithPersistID ''c1'']) = ''c1''"
    by simp
  from t4[THEN conjunct2, THEN conjunct2, THEN conjunct1] a
  have d: "Commit recording_call whole_seconds [] [WithPersist ''p'', WithPersistID ''c1'']
       = (Some PersistIDWithConfirmed, [])"
    by (simp only: if_True)
  show ?thesis
    by (intro conjI) (fact c, fact a, fact r1, fact d, fact r2, fact b)
qed

theorem Commit_validation_order_counterexample:
  "mset [WithConfirmed, WithPersistID ''c1'', WithPersistID []]
     = mset [WithConfirmed, WithPersistID [], WithPersistID ''c1'']
   \<and> Commit recording_call whole_seconds [] [WithConfirmed, WithPersistID ''c1'', WithPersistID []]
       = (None, [\<lparr>Confirmed = True, ConfirmTimeout = 0, Persist = [], PersistID = []\<rparr>])
   \<and> Commit recording_call whole_seconds [] [WithConfirmed, WithPersistID [], WithPersistID ''c1'']
       = (Some PersistIDWithConfirmed, [])"
  by (simp add: Commit_def commit_request_def recording_call_def)

section \<open>\<open>parseXPathToXML\<close>: the claims\<close>

text \<open>
  Claim C5. For every input that does not begin with \<open>/\<close>, \<open>parseXPathToXML\<close> returns
  the error \<open>invalid XPath format: must start with '/'\<close> and no filter document.
\<close>

theorem parse_rejects_missing_separator:
  "\<not> prefix ''/'' xpath \<Longrightarrow> parseXPathToXML xpath = Inl XPathMustStartWithSlash"
  by (simp add: parseXPathToXML_def)

theorem parse_rejects_missing_separator_witness:
  "parseXPathToXML ''library/book'' = Inl XPathMustStartWithSlash \<and> parseXPathToXML [] = Inl XPathMustStartWithSlash"
  using parse_rejects_missing_separator[of "''library/book''"] parse_rejects_missing_separator[of "[]"]
  by simp

text \<open>
  Claim C6. The path \<^verbatim>\<open>/library/book[title="Go Programming"]\<close> has two matches, the
  second with the groups \<open>book\<close>, \<open>title\<close> and \<open>Go Programming\<close>; escaping leaves the
  literal as it is; the translation succeeds with the element \<open>title\<close> inside \<open>book\<close>
  inside \<open>library\<close>, the tags closed in the reverse order; and \<open>WithFilter\<close> stores it
  in the request inside a \<open>filter\<close> element of type \<open>subtree\<close>.
\<close>

theorem translate_library_book:
  \<open>findAll ''/library/book[title="Go Programming"]''
      = [[''/library'', ''library'', [], []],
         [''/book[title="Go Programming"]'', ''book'', ''title'', ''Go Programming'']]
   \<and> html_EscapeString ''Go Programming'' = ''Go Programming''
   \<and> parseXPathToXML ''/library/book[title="Go Programming"]''
      = Inr ''<library><book><title>Go Programming</title></book></library>''
   \<and> WithFilter ''/library/book[title="Go Programming"]'' \<lparr>Source = source, Filter = []\<rparr>
      = \<lparr>Source = source,
         Filter = ''<filter type="subtree"><library><book><title>Go Programming</title></book></library></filter>''\<rparr>\<close>
proof -
  have m: \<open>findAll ''/library/book[title="Go Programming"]''
      = [[''/library'', ''library'', [], []],
         [''/book[title="Go Programming"]'', ''book'', ''title'', ''Go Programming'']]\<close>
    by code_simp
  have e: "html_EscapeString ''Go Programming'' = ''Go Programming''"
    by code_simp
  have p: \<open>parseXPathToXML ''/library/book[title="Go Programming"]''
      = Inr ''<library><book><title>Go Programming</title></book></library>''\<close>
    by code_simp
  show ?thesis
    by (simp only: m e p WithFilter_def sum.case) simp
qed

section \<open>Options whose filter cannot be built\<close>

lemma WithFilter_failure: "parseXPathToXML xpath = Inl err \<Longrightarrow> WithFilter xpath c = c"
  by (simp add: WithFilter_def)

lemma filter_apply_failure:
  "parseXPathToXML xpath = Inl err \<Longrightarrow> subscription_apply rfc3339 (WithFilterOption xpath) req = req"
  by simp

text \<open>
  Claim C1, as amended. For every path expression for which \<open>parseXPathToXML\<close> fails,
  \<open>WithFilter\<close> and \<open>WithFilterOption\<close> leave the request as it was: a get-config or
  create-subscription call built with the option is the call built without it, the
  request reaches \<open>Session.Call\<close> (with no filter when no other option set one) and the
  outcome of \<open>Session.Call\<close> is what the caller gets. The failure is not reported.
\<close>

theorem filter_failure_is_swallowed:
  assumes "parseXPathToXML xpath = Inl err"
  shows "WithFilter xpath c = c
       \<and> GetConfig call s source (opts @ WithFilter xpath # opts') = GetConfig call s source (opts @ opts')
       \<and> GetConfig call s source [WithFilter xpath] =
           (case call \<lparr>Source = source, Filter = []\<rparr> s of
              (Inl e, s') \<Rightarrow> (Inl e, s') | (Inr config, s') \<Rightarrow> (Inr config, s'))
       \<and> subscription_apply fmt (WithFilterOption xpath) req = req
       \<and> CreateSubscription call' fmt' t (sopts @ WithFilterOption xpath # sopts')
           = CreateSubscription call' fmt' t (sopts @ sopts')
       \<and> CreateSubscription call' fmt' t [WithFilterOption xpath]
           = call' \<lparr>Stream = [], SubscriptionFilter = [], StartTime = [], EndTime = []\<rparr> t"
  using assms
  by (simp add: GetConfig_def CreateSubscription_def WithFilter_failure[OF assms])

theorem filter_failure_is_swallowed_witness:
  "parseXPathToXML ''library/book'' = Inl XPathMustStartWithSlash
   \<and> WithFilter ''library/book'' \<lparr>Source = ''running'', Filter = []\<rparr> = \<lparr>Source = ''running'', Filter = []\<rparr>
   \<and> GetConfig recording_get [] ''running'' [WithFilter ''library/book'']
       = (Inr ''<data/>'', [\<lparr>Source = ''running'', Filter = []\<rparr>])"
proof -
  have a: "parseXPathToXML ''library/book'' = Inl XPathMustStartWithSlash"
    by (simp add: parseXPathToXML_def)
  from filter_failure_is_swallowed[OF a, where c = "\<lparr>Source = ''running'', Filter = []\<rparr>"
         and call = recording_get and s = "[]" and source = "''running''"
         and opts = "[]" and opts' = "[]" and fmt = epoch_rfc3339 and fmt' = epoch_rfc3339
         and req = "\<lparr>Stream = [], SubscriptionFilter = [], StartTime = [], EndTime = []\<rparr>"
         and call' = recording_call and t = "[]" and sopts = "[]" and sopts' = "[]"] a
  show ?thesis by (simp add: recording_get_def GetConfig_def)
qed

theorem filter_failure_counterexample:
  "parseXPathToXML ''library/book'' = Inl XPathMustStartWithSlash
   \<and> GetConfig recording_get [] ''running'' [WithFilter ''library/book'']
       = (Inr ''<data/>'', [\<lparr>Source = ''running'', Filter = []\<rparr>])
   \<and> CreateSubscription recording_call epoch_rfc3339 [] [WithFilterOption ''library/book'']
       = (None, [\<lparr>Stream = [], SubscriptionFilter = [], StartTime = [], EndTime = []\<rparr>])"
  by (simp add: parseXPathToXML_def GetConfig_def CreateSubscription_def WithFilter_def
        recording_get_def recording_call_def)

section \<open>\<open>EditConfig\<close>: the fields \<open>Config\<close> and \<open>URL\<close>\<close>

lemma edit_options_keep_config:
  "Config (foldl (\<lambda>r opt. edit_apply opt r) req opts) = Config req
   \<and> URL (foldl (\<lambda>r opt. edit_apply opt r) req opts) = URL req"
proof (induction opts arbitrary: req)
  case Nil
  show ?case by simp
next
  case (Cons opt opts)
  show ?case by (cases opt) (simp_all add: Cons.IH)
qed

lemma EditConfig_request_Config:
  "Config (EditConfig_request target config opts) =
     (case config of AnyString v \<Rightarrow> AnyInnerXML v | AnyBytes v \<Rightarrow> AnyInnerXML v
      | AnyURL v \<Rightarrow> AnyNil | _ \<Rightarrow> config)"
  by (simp add: EditConfig_request_def edit_options_keep_config split: any.splits)

lemma EditConfig_request_URL:
  "URL (EditConfig_request target config opts) = (case config of AnyURL v \<Rightarrow> v | _ \<Rightarrow> [])"
  by (simp add: EditConfig_request_def edit_options_keep_config split: any.splits)

text \<open>
  Claim C7, as amended. A URL argument is stored in \<open>URL\<close> and leaves \<open>Config\<close> nil; a
  string or a byte slice is stored in \<open>Config\<close> as verbatim inner XML and leaves \<open>URL\<close>
  empty; any other value is stored in \<open>Config\<close> as it is and leaves \<open>URL\<close> empty; the
  options change neither field. So the two fields are never both written to the wire.
  Exactly one is written for a string, a byte slice, a non-empty URL and a value of
  another type for which the encoder writes an element; neither is written for nil, for
  the empty URL and for a value for which the encoder writes nothing, such as a nil
  pointer. \<open>EditConfig\<close> hands this request to \<open>Session.Call\<close>.
\<close>

theorem EditConfig_config_or_url:
  fixes config :: "'a any" and x :: 'a and writes :: "'a \<Rightarrow> bool"
    and call :: "'a EditConfigReq \<Rightarrow> 's \<Rightarrow> error option \<times> 's"
  shows
  "URL (EditConfig_request target (AnyURL v :: 'a any) opts) = v
   \<and> Config (EditConfig_request target (AnyURL v :: 'a any) opts) = AnyNil
   \<and> Config (EditConfig_request target (AnyString v :: 'a any) opts) = AnyInnerXML v
   \<and> URL (EditConfig_request target (AnyString v :: 'a any) opts) = []
   \<and> Config (EditConfig_request target (AnyBytes v :: 'a any) opts) = AnyInnerXML v
   \<and> URL (EditConfig_request target (AnyBytes v :: 'a any) opts) = []
   \<and> Config (EditConfig_request target (AnyOther x) opts) = AnyOther x
   \<and> URL (EditConfig_request target (AnyOther x) opts) = []
   \<and> \<not> (config_on_wire writes (EditConfig_request target config opts)
          \<and> url_on_wire (EditConfig_request target config opts))
   \<and> (config_on_wire writes (EditConfig_request target config opts)
        \<or> url_on_wire (EditConfig_request target config opts))
       = (case config of
            AnyNil \<Rightarrow> False
          | AnyURL u \<Rightarrow> u \<noteq> []
          | AnyOther y \<Rightarrow> writes y
          | _ \<Rightarrow> True)
   \<and> EditConfig call s target config opts = call (EditConfig_request target config opts) s"
  by (cases config)
     (simp_all add: EditConfig_request_Config EditConfig_request_URL config_on_wire_def
        url_on_wire_def EditConfig_def)

theorem EditConfig_config_or_url_witness:
  "Config (EditConfig_request ''candidate'' (AnyString ''<top/>'' :: string option any)
             [WithTestStrategy ''test-then-set'']) = AnyInnerXML ''<top/>''
   \<and> URL (EditConfig_request ''candidate'' (AnyString ''<top/>'' :: string option any)
             [WithTestStrategy ''test-then-set'']) = []
   \<and> config_on_wire pointer_written
         (EditConfig_request ''candidate'' (AnyString ''<top/>'' :: string option any)
             [WithTestStrategy ''test-then-set''])
   \<and> \<not> url_on_wire (EditConfig_request ''candidate'' (AnyString ''<top/>'' :: string option any)
             [WithTestStrategy ''test-then-set''])
   \<and> config_on_wire pointer_written
         (EditConfig_request ''candidate'' (AnyOther (Some ''<top/>'')) [])
   \<and> url_on_wire (EditConfig_request ''candidate'' (AnyURL ''file:///c.xml'' :: string option any) [])
   \<and> \<not> config_on_wire pointer_written
         (EditConfig_request ''candidate'' (AnyURL ''file:///c.xml'' :: string option any) [])"
  using EditConfig_config_or_url[where target = "''candidate''" and v = "''<top/>''"
          and opts = "[WithTestStrategy ''test-then-set'']" and x = "Some ''<top/>''"
          and config = "AnyString ''<top/>''" and call = recording_call and s = "[]"
          and writes = pointer_written]
        EditConfig_config_or_url[where target = "''candidate''" and v = "''file:///c.xml''"
          and opts = "[]" and x = "Some ''<top/>''"
          and config = "AnyOther (Some ''<top/>'')" and call = recording_call and s = "[]"
          and writes = pointer_written]
  by (simp add: config_on_wire_def url_on_wire_def pointer_written_def)

theorem EditConfig_config_or_url_counterexample:
  "\<not> config_on_wire pointer_written (EditConfig_request ''running'' (AnyURL []) [])
   \<and> \<not> url_on_wire (EditConfig_request ''running'' (AnyURL [] :: string option any) [])
   \<and> \<not> config_on_wire pointer_written (EditConfig_request ''running'' AnyNil [])
   \<and> \<not> url_on_wire (EditConfig_request ''running'' (AnyNil :: string option any) [])
   \<and> \<not> config_on_wire pointer_written (EditConfig_request ''running'' (AnyOther None) [])
   \<and> \<not> url_on_wire (EditConfig_request ''running'' (AnyOther None :: string option any) [])"
  by (simp add: EditConfig_request_def config_on_wire_def url_on_wire_def pointer_written_def)

section \<open>When the pattern matches\<close>

lemma starGreedy_total:
  "(\<And>s. k s \<noteq> None) \<Longrightarrow> starGreedy p s k \<noteq> None"
  by (induction p s k rule: starGreedy.induct) (auto split: option.splits)

lemma rmatch_Opt_total:
  "(\<And>s c. k s c \<noteq> None) \<Longrightarrow> rmatch (Opt r) s caps k \<noteq> None"
  by (auto split: option.splits)

lemma match_here_xpath_Nil: "match_here xpath_re [] = None"
  by (simp add: match_here_def xpath_re_def)

lemma match_here_xpath_single: "match_here xpath_re [a] = None"
  by (simp add: match_here_def xpath_re_def)

lemma match_here_xpath_Cons:
  "match_here xpath_re (a # b # cs) =
     (if a = CHR ''/'' \<and> is_name_char b
      then starGreedy is_name_char cs
             (\<lambda>s'. rmatch (Opt xpath_predicate_re) s'
                     [1 \<mapsto> take (length (b # cs) - length s') (b # cs)]
                     (\<lambda>s' caps. Some (caps, s')))
      else None)"
  unfolding match_here_def xpath_re_def rmatch.simps(1,3,5,7) list.case
  by (simp only: if_distrib cong: if_cong) (auto)

lemma match_here_xpath_iff:
  "(match_here xpath_re s = None) = (\<not> (\<exists>b cs. s = CHR ''/'' # b # cs \<and> is_name_char b))"
proof (cases s)
  case Nil
  then show ?thesis by (simp add: match_here_xpath_Nil)
next
  case (Cons a xs)
  note s = Cons
  show ?thesis
  proof (cases xs)
    case Nil
    with s show ?thesis by (simp add: match_here_xpath_single)
  next
    case (Cons b cs)
    have tot: "starGreedy is_name_char cs
             (\<lambda>s'. rmatch (Opt xpath_predicate_re) s'
                     [1 \<mapsto> take (length (b # cs) - length s') (b # cs)]
                     (\<lambda>s' caps. Some (caps, s'))) \<noteq> None"
      by (rule starGreedy_total, rule rmatch_Opt_total) simp
    show ?thesis
      unfolding s Cons match_here_xpath_Cons using tot by (simp del: not_None_eq)
  qed
qed

lemma findAll_Nil [simp]: "findAll [] = []"
  by (subst findAll.simps) (simp add: match_here_xpath_Nil)

lemma findAll_empty_iff: "(findAll s = []) = (\<not> has_segment s)"
proof (induction s rule: findAll.induct)
  case (1 s)
  show ?case
  proof (cases "match_here xpath_re s")
    case (Some m)
    with match_here_xpath_iff[of s] obtain b cs
      where "s = CHR ''/'' # b # cs" and "is_name_char b" by auto
    then have "has_segment s" by simp
    moreover have "findAll s \<noteq> []"
      using Some by (subst findAll.simps) (simp split: prod.splits)
    ultimately show ?thesis by simp
  next
    case None
    show ?thesis
    proof (cases s)
      case Nil
      then show ?thesis by simp
    next
      case (Cons a cs)
      have fa: "findAll s = findAll cs"
        using None Cons by (subst findAll.simps) simp
      have ih: "(findAll cs = []) = (\<not> has_segment cs)"
        using "1.IH"(1)[OF None Cons] .
      have "has_segment s = has_segment cs"
      proof (cases cs)
        case Nil
        with Cons show ?thesis by simp
      next
        case (Cons b cs')
        from None have "\<not> (\<exists>b cs. s = CHR ''/'' # b # cs \<and> is_name_char b)"
          using match_here_xpath_iff[of s] by simp
        with \<open>s = a # cs\<close> Cons show ?thesis by auto
      qed
      with fa ih show ?thesis by simp
    qed
  qed
qed

lemma findAll_skip:
  "c \<noteq> CHR ''/'' \<Longrightarrow> findAll (c # s) = findAll s"
  using match_here_xpath_iff[of "c # s"] by (subst findAll.simps) simp

lemma parse_cases:
  "parseXPathToXML xpath =
     (if \<not> prefix ''/'' xpath then Inl XPathMustStartWithSlash
      else if \<not> has_segment xpath then Inl XPathInvalidFormat
      else Inr (close_tags (fst (foldl open_segment ([], []) (findAll xpath)))
                  (snd (foldl open_segment ([], []) (findAll xpath)))))"
  by (simp add: parseXPathToXML_def Let_def findAll_empty_iff)

lemma findAll_skip_all:
  "\<forall>c\<in>set junk. c \<noteq> CHR ''/'' \<Longrightarrow> findAll (junk @ s) = findAll s"
  by (induction junk) (simp_all add: findAll_skip)

lemma findAll_no_match:
  "match_here xpath_re (c # s) = None \<Longrightarrow> findAll (c # s) = findAll s"
  by (subst findAll.simps) simp

text \<open>
  Claim C9, as amended. \<open>parseXPathToXML\<close> returns an error if and only if the input
  does not begin with \<open>/\<close> or has no \<open>/\<close> followed by a character of \<open>[\w-]\<close> (a word
  character or a hyphen); every other input succeeds, and its output is built from the
  matches of the pattern alone. No match begins at a character unless it is a \<open>/\<close>
  followed by a character of \<open>[\w-]\<close>, and the search passes over a character at which
  no match begins without an error, hence over any text without a \<open>/\<close> at which it
  stands: text that lies in no match is left out of the output, as the unquoted predicate of \<^verbatim>\<open>/a[b=c]/d\<close> and the text after the last match of
  \<^verbatim>\<open>/a/b[c="d"] and more\<close> are. A malformed predicate is not always left out, though: the
  name of a predicate may be any text, so \<^verbatim>\<open>/a[b]/c[d="e"]\<close> has the single match with
  the name \<^verbatim>\<open>b]/c[d\<close> and gives \<^verbatim>\<open><a><b]/c[d>e</b]/c[d></a>\<close>.
\<close>

theorem parse_error_iff:
  \<open>(\<exists>err. parseXPathToXML xpath = Inl err) = (\<not> prefix ''/'' xpath \<or> \<not> has_segment xpath)
   \<and> (\<exists>doc. parseXPathToXML xpath = Inr doc) = (prefix ''/'' xpath \<and> has_segment xpath)
   \<and> parseXPathToXML xpath =
       (if \<not> prefix ''/'' xpath then Inl XPathMustStartWithSlash
        else if \<not> has_segment xpath then Inl XPathInvalidFormat
        else Inr (close_tags (fst (foldl open_segment ([], []) (findAll xpath)))
                    (snd (foldl open_segment ([], []) (findAll xpath)))))
   \<and> (match_here xpath_re s = None) = (\<not> (\<exists>b cs. s = CHR ''/'' # b # cs \<and> is_name_char b))
   \<and> (match_here xpath_re (c # s) = None \<longrightarrow> findAll (c # s) = findAll s)
   \<and> ((\<forall>c\<in>set junk. c \<noteq> CHR ''/'') \<longrightarrow> findAll (junk @ s) = findAll s)
   \<and> parseXPathToXML ''/a[b=c]/d'' = Inr ''<a><d></d></a>''
   \<and> parseXPathToXML ''/a/b[c="d"] and more'' = Inr ''<a><b><c>d</c></b></a>''
   \<and> findAll ''/a[b]/c[d="e"]'' = [[''/a[b]/c[d="e"]'', ''a'', ''b]/c[d'', ''e'']]
   \<and> parseXPathToXML ''/a[b]/c[d="e"]'' = Inr ''<a><b]/c[d>e</b]/c[d></a>''\<close>
proof -
  have a: \<open>parseXPathToXML ''/a[b=c]/d'' = Inr ''<a><d></d></a>''\<close>
    by code_simp
  have b: \<open>parseXPathToXML ''/a/b[c="d"] and more'' = Inr ''<a><b><c>d</c></b></a>''\<close>
    by code_simp
  have c: \<open>findAll ''/a[b]/c[d="e"]'' = [[''/a[b]/c[d="e"]'', ''a'', ''b]/c[d'', ''e'']]\<close>
    by code_simp
  have d: \<open>parseXPathToXML ''/a[b]/c[d="e"]'' = Inr ''<a><b]/c[d>e</b]/c[d></a>''\<close>
    by code_simp
  have e: "(\<exists>err. parseXPathToXML xpath = Inl err) = (\<not> prefix ''/'' xpath \<or> \<not> has_segment xpath)"
    by (simp add: parse_cases)
  have f: "(\<exists>doc. parseXPathToXML xpath = Inr doc) = (prefix ''/'' xpath \<and> has_segment xpath)"
    by (simp add: parse_cases)
  have g: "parseXPathToXML xpath =
       (if \<not> prefix ''/'' xpath then Inl XPathMustStartWithSlash
        else if \<not> has_segment xpath then Inl XPathInvalidFormat
        else Inr (close_tags (fst (foldl open_segment ([], []) (findAll xpath)))
                    (snd (foldl open_segment ([], []) (findAll xpath)))))"
    by (rule parse_cases)
  have h: "(match_here xpath_re s = None) = (\<not> (\<exists>b cs. s = CHR ''/'' # b # cs \<and> is_name_char b))"
    by (rule match_here_xpath_iff)
  have k: "match_here xpath_re (c # s) = None \<longrightarrow> findAll (c # s) = findAll s"
    by (rule impI) (rule findAll_no_match)
  have l: "(\<forall>c\<in>set junk. c \<noteq> CHR ''/'') \<longrightarrow> findAll (junk @ s) = findAll s"
    by (rule impI) (rule findAll_skip_all)
  show ?thesis
    by (intro conjI) (fact e, fact f, fact g, fact h, fact k, fact l, fact a, fact b, fact c, fact d)
qed

theorem parse_error_iff_witness:
  \<open>prefix ''/'' ''/-x/y'' \<and> has_segment ''/-x/y'' \<and> (\<exists>doc. parseXPathToXML ''/-x/y'' = Inr doc)
   \<and> \<not> has_segment ''//[a="b"]'' \<and> parseXPathToXML ''//[a="b"]'' = Inl XPathInvalidFormat
   \<and> match_here xpath_re ''$/d'' = None \<and> findAll ''$/d'' = findAll ''/d''\<close>
proof -
  have a: "prefix ''/'' ''/-x/y'' \<and> has_segment ''/-x/y''"
    by (simp add: is_name_char_def)
  have b: \<open>\<not> has_segment ''//[a="b"]''\<close>
    by (simp add: is_name_char_def is_word_char_def)
  note t1 = parse_error_iff[where xpath = "''/-x/y''" and s = "''$/d''" and c = "CHR ''$''"]
  note t2 = parse_error_iff[where xpath = \<open>''//[a="b"]''\<close> and s = "''$/d''" and c = "CHR ''$''"]
  note t3 = parse_error_iff[where xpath = "''/-x/y''" and s = "''/d''" and c = "CHR ''$''"]
  from t2 have m: "match_here xpath_re ''$/d'' = None"
    by simp
  from t3 m have n: "findAll ''$/d'' = findAll ''/d''"
    by blast
  from t1 a have p: "\<exists>doc. parseXPathToXML ''/-x/y'' = Inr doc"
    by blast
  from t2 b have q: \<open>parseXPathToXML ''//[a="b"]'' = Inl XPathInvalidFormat\<close>
    by simp
  from a b m n p q show ?thesis by simp
qed

theorem parse_error_iff_counterexample:
  \<open>prefix ''/'' ''/-'' \<and> \<not> has_word_segment ''/-'' \<and> parseXPathToXML ''/-'' = Inr ''<-></->''
   \<and> parseXPathToXML ''/a[b]/c[d="e"]'' = Inr ''<a><b]/c[d>e</b]/c[d></a>''\<close>
proof -
  have a: "parseXPathToXML ''/-'' = Inr ''<-></->''"
    by code_simp
  have b: \<open>parseXPathToXML ''/a[b]/c[d="e"]'' = Inr ''<a><b]/c[d>e</b]/c[d></a>''\<close>
    by code_simp
  from a b show ?thesis by (simp add: is_word_char_def)
qed

section \<open>\<open>ExtantBool\<close>: presence on the wire\<close>

lemma skip_content_flatten:
  "skip_content (n # stk) (flatten x @ d) = skip_content (n # stk) d"
proof (induction x arbitrary: n stk d)
  case (Element m cs)
  have inner: "skip_content (k # st) (concat (map flatten xs) @ d') = skip_content (k # st) d'"
    if "set xs \<subseteq> set cs" for xs k st d'
    using that
  proof (induction xs)
    case Nil
    show ?case by simp
  next
    case (Cons y ys)
    then have y: "y \<in> set cs" and ys: "set ys \<subseteq> set cs" by auto
    show ?case using Element.IH[OF y] Cons.IH[OF ys] by simp
  qed
  show ?case using inner[of cs m "n # stk" "EndElement m # d"] by simp
next
  case (Text t)
  show ?case by simp
qed

lemma skip_content_flatten_all:
  "skip_content (n # stk) (flatten_all xs @ d) = skip_content (n # stk) d"
  by (induction xs) (simp_all add: flatten_all_def skip_content_flatten)

lemma UnmarshalXML_element:
  "ExtantBool_UnmarshalXML b (flatten_all content @ EndElement start # d) start = (None, True, d)"
  by (simp add: ExtantBool_UnmarshalXML_def DecodeElement_empty_def skip_content_flatten_all)

lemma unmarshal_OKResp_children:
  "unmarshal_OKResp ok (flatten_all children @ EndElement reply # d)
     = Inr (ok \<or> list_ex is_ok_element children, d)"
proof (induction children arbitrary: ok)
  case Nil
  show ?case by (simp add: flatten_all_def)
next
  case (Cons x xs)
  show ?case
  proof (cases x)
    case (Element n cs)
    have f: "flatten_all (x # xs) @ EndElement reply # d
           = StartElement n # flatten_all cs @ EndElement n # (flatten_all xs @ EndElement reply # d)"
      by (simp add: flatten_all_def Element)
    show ?thesis
      unfolding f
      by (simp add: UnmarshalXML_element skip_content_flatten_all Cons.IH Element)
  next
    case (Text t)
    then show ?thesis using Cons.IH by (simp add: flatten_all_def)
  qed
qed

text \<open>
  Claim C3. \<open>true\<close> is encoded as the element with no content and \<open>false\<close> writes
  nothing. \<open>UnmarshalXML\<close> sets the value to \<open>true\<close> whatever the content of the
  element is; decoding a reply into \<open>OKResp\<close> gives \<open>true\<close> exactly when one of the
  children of the reply is an element named \<open>ok\<close>. So decoding what was encoded gives
  the original value, for both values.
\<close>

theorem ExtantBool_presence:
  assumes "start \<noteq> []"
  shows "ExtantBool_MarshalXML True e start = (None, e @ render (flatten (Element start [])))
       \<and> ExtantBool_MarshalXML False e start = (None, e)
       \<and> ExtantBool_UnmarshalXML b (flatten_all content @ EndElement start # d) start = (None, True, d)
       \<and> unmarshal_OKResp False (flatten_all children @ EndElement reply # d)
           = Inr (list_ex is_ok_element children, d)
       \<and> ExtantBool_MarshalXML v [] ''ok''
           = (None, render (flatten_all (if v then [Element ''ok'' []] else [])))
       \<and> unmarshal_OKResp False (flatten_all (if v then [Element ''ok'' []] else []) @ EndElement reply # d)
           = Inr (v, d)"
  using assms
  by (simp add: ExtantBool_MarshalXML_def EncodeElement_empty_def UnmarshalXML_element
        unmarshal_OKResp_children) (simp add: flatten_all_def)

theorem ExtantBool_presence_witness:
  "ExtantBool_MarshalXML True [] ''confirmed'' = (None, ''<confirmed></confirmed>'')
   \<and> ExtantBool_MarshalXML False [] ''confirmed'' = (None, [])
   \<and> ExtantBool_UnmarshalXML False [CharData ''true'', StartElement ''x'', EndElement ''x'',
         EndElement ''confirmed'', EndElement ''commit''] ''confirmed''
       = (None, True, [EndElement ''commit''])
   \<and> unmarshal_OKResp False [StartElement ''ok'', CharData ''anything'', EndElement ''ok'',
         EndElement ''rpc-reply''] = Inr (True, [])
   \<and> unmarshal_OKResp False [StartElement ''data'', EndElement ''data'', EndElement ''rpc-reply'']
       = Inr (False, [])"
proof -
  have s: "''confirmed'' \<noteq> []" by simp
  note t = ExtantBool_presence[OF s, where e = "[]" and b = False
      and content = "[Text ''true'', Element ''x'' []]" and d = "[EndElement ''commit'']"
      and children = "[Element ''ok'' [Text ''anything'']]" and reply = "''rpc-reply''" and v = True]
  have a: "unmarshal_OKResp False [StartElement ''ok'', CharData ''anything'', EndElement ''ok'',
         EndElement ''rpc-reply''] = Inr (True, [])"
    by (simp add: ExtantBool_UnmarshalXML_def DecodeElement_empty_def)
  have b: "unmarshal_OKResp False [StartElement ''data'', EndElement ''data'', EndElement ''rpc-reply'']
       = Inr (False, [])"
    by simp
  from t a b show ?thesis
    by (simp add: flatten_all_def)
qed

section \<open>\<open>Datastore\<close>: the identifier as a tag name\<close>

lemma rune_width_ascii:
  "byte_in c 0 0x7F \<Longrightarrow> rune_width (c # cs) = 1"
proof -
  assume a: "byte_in c 0 0x7F"
  then have n: "\<not> byte_in c 0xC2 0xDF" "c \<noteq> CHR 0xE0" "\<not> byte_in c 0xE1 0xEC"
    "\<not> byte_in c 0xEE 0xEF" "c \<noteq> CHR 0xED" "c \<noteq> CHR 0xF0" "\<not> byte_in c 0xF1 0xF3"
    "c \<noteq> CHR 0xF4"
    by (auto simp: byte_in_def)
  show ?thesis
  proof (cases cs)
    case Nil
    then show ?thesis by simp
  next
    case (Cons b cs1)
    note c1 = Cons
    show ?thesis
    proof (cases cs1)
      case Nil
      with c1 n show ?thesis by simp
    next
      case (Cons c2 cs2)
      note c2 = Cons
      show ?thesis
      proof (cases cs2)
        case Nil
        with c1 c2 n show ?thesis by simp
      next
        case (Cons c3 cs3)
        with c1 c2 n show ?thesis by simp
      qed
    qed
  qed
qed

lemma escape_text_ascii:
  "byte_in c 0 0x7F \<Longrightarrow> escape_text (c # cs) = escape_byte c @ escape_text cs"
  by (subst escape_text.simps) (simp add: rune_width_ascii escape_rune_def)

lemma escape_text_Nil [simp]: "escape_text [] = []"
  by (subst escape_text.simps) simp

lemma name_char_plain:
  assumes "is_name_char c"
  shows "byte_in c 0 0x7F" and "escape_byte c = [c]"
proof -
  from assms have r: "45 \<le> (of_char c :: nat) \<and> (of_char c :: nat) \<le> 122"
    by (auto simp: is_name_char_def is_word_char_def Let_def)
  then show "byte_in c 0 0x7F" by (simp add: byte_in_def)
  from r have "c \<noteq> dquote" "c \<noteq> squote" "c \<noteq> CHR ''&''" "c \<noteq> CHR ''<''" "c \<noteq> CHR ''>''"
    "c \<noteq> CHR 0x09" "c \<noteq> CHR 0x0A" "c \<noteq> CHR 0x0D"
    using assms by (auto simp: dquote_def squote_def is_name_char_def is_word_char_def Let_def)
  with r show "escape_byte c = [c]"
    by (simp add: escape_byte_def byte_in_def)
qed

lemma escape_text_name:
  "\<forall>c\<in>set s. is_name_char c \<Longrightarrow> escape_text s = s"
  by (induction s) (simp_all add: escape_text_ascii name_char_plain)

lemma escape_text_ascii_all:
  "\<forall>c\<in>set s. byte_in c 0 0x7F \<Longrightarrow> escape_text s = concat (map escape_byte s)"
  by (induction s) (simp_all add: escape_text_ascii)

lemma escape_byte_markup:
  "escape_byte (CHR ''<'') = ''&lt;'' \<and> escape_byte (CHR ''>'') = ''&gt;''
   \<and> escape_byte (CHR ''&'') = ''&amp;''
   \<and> escape_byte dquote = ''&#34;'' \<and> escape_byte squote = ''&#39;''"
  by (simp add: escape_byte_def dquote_def squote_def)

lemma escape_text_example: "escape_text ''a<b&c'' = ''a&lt;b&amp;c''"
  by code_simp

lemma Datastore_MarshalXML_cases:
  "Datastore_MarshalXML flush s e start =
     (if s = [] then (Some EmptyDatastore, e)
      else if start = [] then (Some MissingStartName, e)
      else (flush (e @ ''<'' @ start @ ''>'' @ ''<'' @ escape_text s @ ''/>'' @ ''</'' @ start @ ''>''),
            e @ ''<'' @ start @ ''>'' @ ''<'' @ escape_text s @ ''/>'' @ ''</'' @ start @ ''>''))"
  by (simp add: Datastore_MarshalXML_def escapeXML_def xml_EscapeText_def
        EncodeElement_innerxml_def Let_def)

text \<open>
  Claim C4. Encoding the empty identifier fails with \<open>datastores cannot be empty\<close> and
  writes nothing. A non-empty identifier is escaped first: the markup characters are
  replaced by their character references (an identifier of ASCII characters is escaped
  character by character), and the encoder writes the selector element around the empty
  element whose tag is the escaped identifier, returning the outcome of its flush. For
  an identifier of word characters and hyphens, such as \<open>running\<close>, that tag is the
  identifier itself: \<open><source><running/></source>\<close>.
\<close>

theorem Datastore_encoding:
  assumes "s \<noteq> []" and "start \<noteq> []"
  shows "Datastore_MarshalXML flush [] e start = (Some EmptyDatastore, e)
       \<and> escapeXML s = Inr (escape_text s)
       \<and> Datastore_MarshalXML flush s e start
           = (flush (e @ ''<'' @ start @ ''>'' @ ''<'' @ escape_text s @ ''/>'' @ ''</'' @ start @ ''>''),
              e @ ''<'' @ start @ ''>'' @ ''<'' @ escape_text s @ ''/>'' @ ''</'' @ start @ ''>'')
       \<and> ((\<forall>c\<in>set s. is_name_char c) \<longrightarrow>
            Datastore_MarshalXML flush s e start
              = (flush (e @ ''<'' @ start @ ''>'' @ ''<'' @ s @ ''/>'' @ ''</'' @ start @ ''>''),
                 e @ ''<'' @ start @ ''>'' @ ''<'' @ s @ ''/>'' @ ''</'' @ start @ ''>''))
       \<and> ((\<forall>c\<in>set s. byte_in c 0 0x7F) \<longrightarrow> escape_text s = concat (map escape_byte s))
       \<and> escape_byte (CHR ''<'') = ''&lt;'' \<and> escape_byte (CHR ''>'') = ''&gt;''
       \<and> escape_byte (CHR ''&'') = ''&amp;''
       \<and> escape_byte dquote = ''&#34;'' \<and> escape_byte squote = ''&#39;''
       \<and> Datastore_MarshalXML flush ''a<b&c'' e start
           = (flush (e @ ''<'' @ start @ ''>'' @ ''<a&lt;b&amp;c/>'' @ ''</'' @ start @ ''>''),
              e @ ''<'' @ start @ ''>'' @ ''<a&lt;b&amp;c/>'' @ ''</'' @ start @ ''>'')"
proof -
  have a: "Datastore_MarshalXML flush [] e start = (Some EmptyDatastore, e)"
    by (simp add: Datastore_MarshalXML_cases)
  have b: "escapeXML s = Inr (escape_text s)"
    by (simp add: escapeXML_def xml_EscapeText_def)
  have c: "Datastore_MarshalXML flush s e start
           = (flush (e @ ''<'' @ start @ ''>'' @ ''<'' @ escape_text s @ ''/>'' @ ''</'' @ start @ ''>''),
              e @ ''<'' @ start @ ''>'' @ ''<'' @ escape_text s @ ''/>'' @ ''</'' @ start @ ''>'')"
    using assms by (simp add: Datastore_MarshalXML_cases)
  have d: "(\<forall>c\<in>set s. is_name_char c) \<longrightarrow>
            Datastore_MarshalXML flush s e start
              = (flush (e @ ''<'' @ start @ ''>'' @ ''<'' @ s @ ''/>'' @ ''</'' @ start @ ''>''),
                 e @ ''<'' @ start @ ''>'' @ ''<'' @ s @ ''/>'' @ ''</'' @ start @ ''>'')"
    using c by (simp add: escape_text_name)
  have f: "(\<forall>c\<in>set s. byte_in c 0 0x7F) \<longrightarrow> escape_text s = concat (map escape_byte s)"
    by (simp add: escape_text_ascii_all)
  have g: "Datastore_MarshalXML flush ''a<b&c'' e start
           = (flush (e @ ''<'' @ start @ ''>'' @ ''<a&lt;b&amp;c/>'' @ ''</'' @ start @ ''>''),
              e @ ''<'' @ start @ ''>'' @ ''<a&lt;b&amp;c/>'' @ ''</'' @ start @ ''>'')"
    using assms(2) by (simp add: Datastore_MarshalXML_cases escape_text_example)
  note m = escape_byte_markup
  show ?thesis
    by (intro conjI)
       (fact a, fact b, fact c, fact d, fact f,
        fact m[THEN conjunct1], fact m[THEN conjunct2, THEN conjunct1],
        fact m[THEN conjunct2, THEN conjunct2, THEN conjunct1],
        fact m[THEN conjunct2, THEN conjunct2, THEN conjunct2, THEN conjunct1],
        fact m[THEN conjunct2, THEN conjunct2, THEN conjunct2, THEN conjunct2], fact g)
qed

theorem Datastore_encoding_witness:
  "Datastore_MarshalXML accepting_writer [] [] ''source'' = (Some EmptyDatastore, [])
   \<and> Datastore_MarshalXML accepting_writer ''running'' [] ''source''
       = (None, ''<source><running/></source>'')
   \<and> Datastore_MarshalXML accepting_writer ''a<b&c'' [] ''source''
       = (None, ''<source><a&lt;b&amp;c/></source>'')"
proof -
  have a: "''running'' \<noteq> []" and b: "''source'' \<noteq> []" by simp_all
  have c: "\<forall>c\<in>set ''running''. is_name_char c"
    by (simp add: is_name_char_def is_word_char_def)
  note t = Datastore_encoding[OF a b, of accepting_writer "[]"]
  from t have e: "Datastore_MarshalXML accepting_writer [] [] ''source'' = (Some EmptyDatastore, [])"
    by (rule conjunct1)
  from t c have f: "Datastore_MarshalXML accepting_writer ''running'' [] ''source''
      = (accepting_writer ([] @ ''<'' @ ''source'' @ ''>'' @ ''<'' @ ''running'' @ ''/>'' @ ''</'' @ ''source'' @ ''>''),
         [] @ ''<'' @ ''source'' @ ''>'' @ ''<'' @ ''running'' @ ''/>'' @ ''</'' @ ''source'' @ ''>'')"
    by blast
  from t have g: "Datastore_MarshalXML accepting_writer ''a<b&c'' [] ''source''
      = (accepting_writer ([] @ ''<'' @ ''source'' @ ''>'' @ ''<a&lt;b&amp;c/>'' @ ''</'' @ ''source'' @ ''>''),
         [] @ ''<'' @ ''source'' @ ''>'' @ ''<a&lt;b&amp;c/>'' @ ''</'' @ ''source'' @ ''>'')"
    by blast
  from e f g show ?thesis by (simp add: accepting_writer_def)
qed

text \<open>
  Claim C8, as amended. \<open>Datastore.MarshalXML\<close> returns an error if and only if the
  identifier is empty, or the start element it is given has no name, or the flush that
  ends \<open>EncodeElement\<close> fails. So for a start element with a name and a writer that accepts
  the bytes it returns an error if and only if the identifier is empty: an identifier
  with markup characters is encoded, the characters escaped inside the tag name.
\<close>

theorem Datastore_error_iff:
  "fst (Datastore_MarshalXML flush s e start) =
     (if s = [] then Some EmptyDatastore
      else if start = [] then Some MissingStartName
      else flush (e @ ''<'' @ start @ ''>'' @ ''<'' @ escape_text s @ ''/>'' @ ''</'' @ start @ ''>''))
   \<and> (\<exists>err. fst (Datastore_MarshalXML accepting_writer s e start) = Some err)
       = (s = [] \<or> start = [])
   \<and> (start \<noteq> [] \<longrightarrow>
        (\<exists>err. fst (Datastore_MarshalXML accepting_writer s e start) = Some err) = (s = []))
   \<and> Datastore_MarshalXML accepting_writer ''a<b&c'' e ''target''
       = (None, e @ ''<target><a&lt;b&amp;c/></target>'')"
  by (simp add: Datastore_MarshalXML_cases accepting_writer_def escape_text_example)

theorem Datastore_error_iff_witness:
  "fst (Datastore_MarshalXML accepting_writer [] [] ''target'') = Some EmptyDatastore
   \<and> Datastore_MarshalXML accepting_writer ''a<b&c'' [] ''target''
       = (None, ''<target><a&lt;b&amp;c/></target>'')
   \<and> fst (Datastore_MarshalXML accepting_writer ''candidate'' [] ''target'') = None"
proof -
  note t1 = Datastore_error_iff[of accepting_writer "[]" "[]" "''target''"]
  note t2 = Datastore_error_iff[of accepting_writer "''candidate''" "[]" "''target''"]
  from t1[THEN conjunct1]
  have a: "fst (Datastore_MarshalXML accepting_writer [] [] ''target'') = Some EmptyDatastore"
    by simp
  from t1[THEN conjunct2, THEN conjunct2, THEN conjunct2]
  have b: "Datastore_MarshalXML accepting_writer ''a<b&c'' [] ''target''
       = (None, ''<target><a&lt;b&amp;c/></target>'')"
    by simp
  from t2[THEN conjunct2, THEN conjunct1]
  have "\<not> (\<exists>err. fst (Datastore_MarshalXML accepting_writer ''candidate'' [] ''target'') = Some err)"
    by simp
  then have c: "fst (Datastore_MarshalXML accepting_writer ''candidate'' [] ''target'') = None"
    by simp
  from a b c show ?thesis by simp
qed

theorem Datastore_error_iff_counterexample:
  "Datastore_MarshalXML accepting_writer ''running'' [] [] = (Some MissingStartName, [])"
  by (simp add: Datastore_MarshalXML_def escapeXML_def xml_EscapeText_def
        EncodeElement_innerxml_def)

end
